theory Spec2Isabelle
  imports Main "HOL-Library.Sublist" "HOL-Library.AList"
begin

section \<open>Python values of the content tree\<close>

text \<open>
  The content tree, the local context and the cached remote contexts are JSON values as
  Python holds them after parsing: \<open>None\<close>, \<open>bool\<close>, numbers, \<open>str\<close>, \<open>list\<close> and
  \<open>dict\<close>. A \<open>dict\<close> is an association list in insertion order; a dict built by Python has
  distinct keys. Numbers are integers: the code of \<open>document.py\<close> observes a number only
  through its truth value and through equality with another value, where a float behaves
  as the integer of the same value does.
\<close>

datatype json = JNull | JBool bool | JInt int | JStr string
  | JList "json list" | JObj "(string \<times> json) list"

type_synonym dict = "(string \<times> json) list"

text \<open>The exceptions that the operations used by \<open>document.py\<close> can raise.\<close>

datatype error = KeyError | TypeError | ValueError | AttributeError | IndexError

text \<open>Truth value of a Python object (\<open>if not item\<close>).\<close>

fun truthy :: "json \<Rightarrow> bool" where
  "truthy JNull = False"
| "truthy (JBool b) = b"
| "truthy (JInt n) = (n \<noteq> 0)"
| "truthy (JStr s) = (s \<noteq> [])"
| "truthy (JList xs) = (xs \<noteq> [])"
| "truthy (JObj d) = (d \<noteq> [])"

text \<open>
  Python's \<open>==\<close> on these values: \<open>bool\<close> is a subtype of \<open>int\<close> (\<open>False == 0\<close>), lists are
  compared elementwise, dicts as finite maps, whatever the order of their keys.
\<close>

fun py_eq :: "json \<Rightarrow> json \<Rightarrow> bool" where
  "py_eq JNull JNull = True"
| "py_eq (JBool a) (JBool b) = (a = b)"
| "py_eq (JBool a) (JInt n) = ((if a then 1 else 0) = n)"
| "py_eq (JInt n) (JBool b) = (n = (if b then 1 else 0))"
| "py_eq (JInt m) (JInt n) = (m = n)"
| "py_eq (JStr s) (JStr t) = (s = t)"
| "py_eq (JList xs) (JList ys) = list_all2 py_eq xs ys"
| "py_eq (JObj xs) (JObj ys) = (length xs = length ys \<and>
     list_all (\<lambda>(k, v). case map_of ys k of None \<Rightarrow> False | Some w \<Rightarrow> py_eq v w) xs)"
| "py_eq _ _ = False"

text \<open>
  Iterating over a value (\<open>for item in x\<close>, \<open>list(x)\<close>): a list gives its elements, a dict
  its keys, a string its characters; anything else raises \<open>TypeError\<close>.
\<close>

fun py_iter :: "json \<Rightarrow> error + json list" where
  "py_iter (JList xs) = Inr xs"
| "py_iter (JObj d) = Inr (map (\<lambda>kv. JStr (fst kv)) d)"
| "py_iter (JStr s) = Inr (map (\<lambda>c. JStr [c]) s)"
| "py_iter _ = Inl TypeError"

text \<open>\<open>x[key]\<close> for a string key.\<close>

fun getitem_str :: "json \<Rightarrow> string \<Rightarrow> error + json" where
  "getitem_str (JObj d) k = (case map_of d k of None \<Rightarrow> Inl KeyError | Some v \<Rightarrow> Inr v)"
| "getitem_str _ k = Inl TypeError"

text \<open>
  \<open>d.update(other)\<close>. When \<open>other\<close> is a dict its items are stored in order. Otherwise
  Python iterates over \<open>other\<close> and takes every element as a sequence of exactly two
  items, a key and a value; the key must be hashable. The dictionary updated here is only
  ever asked whether it has a given string key, so an item stored under a key that is not
  a string is left out.
\<close>

definition dict_update :: "dict \<Rightarrow> dict \<Rightarrow> dict" where
  "dict_update d other = fold (\<lambda>kv. AList.update (fst kv) (snd kv)) other d"

fun pair_of :: "json \<Rightarrow> error + json \<times> json" where
  "pair_of (JList xs) = (case xs of [k, v] \<Rightarrow> Inr (k, v) | _ \<Rightarrow> Inl ValueError)"
| "pair_of (JStr s) = (case s of [a, b] \<Rightarrow> Inr (JStr [a], JStr [b]) | _ \<Rightarrow> Inl ValueError)"
| "pair_of (JObj d) = (case d of [p, q] \<Rightarrow> Inr (JStr (fst p), JStr (fst q)) | _ \<Rightarrow> Inl ValueError)"
| "pair_of _ = Inl TypeError"

fun store_pair :: "dict \<Rightarrow> json \<times> json \<Rightarrow> error + dict" where
  "store_pair d (JStr k, v) = Inr (AList.update k v d)"
| "store_pair d (JList xs, v) = Inl TypeError"
| "store_pair d (JObj xs, v) = Inl TypeError"
| "store_pair d (k, v) = Inr d"

fun update_seq :: "dict \<Rightarrow> json list \<Rightarrow> error + dict" where
  "update_seq d [] = Inr d"
| "update_seq d (x # xs) =
     (case pair_of x of Inl e \<Rightarrow> Inl e
      | Inr p \<Rightarrow> (case store_pair d p of Inl e \<Rightarrow> Inl e | Inr d' \<Rightarrow> update_seq d' xs))"

fun dict_update_json :: "dict \<Rightarrow> json \<Rightarrow> error + dict" where
  "dict_update_json d (JObj other) = Inr (dict_update d other)"
| "dict_update_json d (JList xs) = update_seq d xs"
| "dict_update_json d (JStr s) = (if s = [] then Inr d else Inl ValueError)"
| "dict_update_json d _ = Inl TypeError"

text \<open>
  \<open>xs.remove(x)\<close> deletes the first element equal to \<open>x\<close> and raises \<open>ValueError\<close> when
  there is none; only a list has the method.
\<close>

fun list_remove :: "json \<Rightarrow> json list \<Rightarrow> error + json list" where
  "list_remove x [] = Inl ValueError"
| "list_remove x (y # ys) =
     (if py_eq y x then Inr ys
      else (case list_remove x ys of Inl e \<Rightarrow> Inl e | Inr zs \<Rightarrow> Inr (y # zs)))"

fun py_remove :: "json \<Rightarrow> json \<Rightarrow> error + json" where
  "py_remove (JList xs) x = (case list_remove x xs of Inl e \<Rightarrow> Inl e | Inr ys \<Rightarrow> Inr (JList ys))"
| "py_remove _ x = Inl AttributeError"

section \<open>Document._deduplicate_context\<close>

text \<open>
  \<open>self.remote_context_keys = [i for i in user_contexts if isinstance(i, str)]\<close>, and the
  empty list when iterating raises \<open>TypeError\<close> (lines 87 to 90).
\<close>

fun str_of :: "json \<Rightarrow> string option" where
  "str_of (JStr s) = Some s"
| "str_of _ = None"

definition remote_context_keys :: "json \<Rightarrow> string list" where
  "remote_context_keys user_contexts =
     (case py_iter user_contexts of Inl e \<Rightarrow> [] | Inr items \<Rightarrow> List.map_filter str_of items)"

text \<open>
  Lines 121 to 125: the remote contexts named by \<open>remote_context_keys\<close> and present in the
  cache are merged into one dictionary, later ones over earlier ones. A cache that is
  \<open>None\<close> or empty is falsy and skipped.
\<close>

fun aggregate :: "dict \<Rightarrow> dict \<Rightarrow> string list \<Rightarrow> error + dict" where
  "aggregate context remote_context [] = Inr remote_context"
| "aggregate context remote_context (key # keys) =
     (case map_of context key of
        None \<Rightarrow> aggregate context remote_context keys
      | Some doc \<Rightarrow>
          (case getitem_str doc ''@context'' of
             Inl e \<Rightarrow> Inl e
           | Inr body \<Rightarrow>
               (case dict_update_json remote_context body of
                  Inl e \<Rightarrow> Inl e
                | Inr remote_context' \<Rightarrow> aggregate context remote_context' keys)))"

definition aggregate_remote :: "string list \<Rightarrow> dict option \<Rightarrow> error + dict" where
  "aggregate_remote keys context =
     (case context of
        None \<Rightarrow> Inr []
      | Some c \<Rightarrow> if c = [] then Inr [] else aggregate c [] keys)"

text \<open>
  Lines 130 to 140, the body of \<open>for key in dict(item)\<close>: the key is popped when the remote
  context has it; then \<open>item[key]\<close> is read and the key is popped when the value starts with
  \<open>user:\<close>. A \<open>KeyError\<close> (the key is gone) and an \<open>AttributeError\<close> (the value is not a
  string) are caught and ignored.
\<close>

definition has_key :: "string \<Rightarrow> dict \<Rightarrow> bool" where
  "has_key k d = (k \<in> set (map fst d))"

definition visit_key :: "dict \<Rightarrow> string \<Rightarrow> dict \<Rightarrow> dict" where
  "visit_key remote_context key item =
     (let item1 = (if has_key key remote_context then AList.delete key item else item)
      in case map_of item1 key of
           None \<Rightarrow> item1
         | Some (JStr s) \<Rightarrow> if prefix ''user:'' s then AList.delete key item1 else item1
         | Some v \<Rightarrow> item1)"

definition clean_item :: "dict \<Rightarrow> json \<Rightarrow> json" where
  "clean_item remote_context item =
     (case item of
        JObj d \<Rightarrow> JObj (fold (visit_key remote_context) (map fst d) d)
      | _ \<Rightarrow> item)"

text \<open>
  Lines 128 to 140, \<open>for item in user_context\<close>: the dicts among the elements of a list are
  cleaned in place. The items of a dict or of a string are strings, so nothing changes;
  any other value cannot be iterated.
\<close>

fun clean_items :: "dict \<Rightarrow> json \<Rightarrow> error + json" where
  "clean_items remote_context (JList xs) = Inr (JList (map (clean_item remote_context) xs))"
| "clean_items remote_context (JObj d) = Inr (JObj d)"
| "clean_items remote_context (JStr s) = Inr (JStr s)"
| "clean_items remote_context _ = Inl TypeError"

text \<open>
  Lines 143 to 145, \<open>for item in list(user_context)\<close>: every falsy item of the copy is
  removed from \<open>user_context\<close> itself with \<open>remove\<close>.
\<close>

fun remove_empty :: "json \<Rightarrow> json list \<Rightarrow> error + json" where
  "remove_empty user_context [] = Inr user_context"
| "remove_empty user_context (item # items) =
     (if \<not> truthy item
      then (case py_remove user_context item of
              Inl e \<Rightarrow> Inl e
            | Inr user_context' \<Rightarrow> remove_empty user_context' items)
      else remove_empty user_context items)"

text \<open>
  The method, with the field \<open>self.remote_context_keys\<close> that it reads as its first
  argument.
\<close>

definition deduplicate_context :: "string list \<Rightarrow> json \<Rightarrow> dict option \<Rightarrow> error + json" where
  "deduplicate_context keys user_context context =
     (case aggregate_remote keys context of
        Inl e \<Rightarrow> Inl e
      | Inr remote_context \<Rightarrow>
          (case clean_items remote_context user_context of
             Inl e \<Rightarrow> Inl e
           | Inr cleaned \<Rightarrow>
               (case py_iter cleaned of
                  Inl e \<Rightarrow> Inl e
                | Inr items \<Rightarrow> remove_empty cleaned items)))"

text \<open>
  A key of an item is removed by \<open>visit_key\<close> exactly when the remote context has it or
  the item maps it to a string that starts with \<open>user:\<close>.
\<close>

definition removable :: "dict \<Rightarrow> dict \<Rightarrow> string \<Rightarrow> bool" where
  "removable remote_context item key =
     (has_key key remote_context \<or>
      (case map_of item key of Some (JStr s) \<Rightarrow> prefix ''user:'' s | _ \<Rightarrow> False))"

section \<open>Document.__init__\<close>

text \<open>\<open>c[-1]\<close>: the last element of a list, the last character of a string.\<close>

fun py_last :: "json \<Rightarrow> error + json" where
  "py_last (JList xs) = (if xs = [] then Inl IndexError else Inr (last xs))"
| "py_last (JStr s) = (if s = [] then Inl IndexError else Inr (JStr [last s]))"
| "py_last (JObj d) = Inl KeyError"
| "py_last _ = Inl TypeError"

text \<open>\<open>x[key] = value\<close> for a string key: only a dict accepts it.\<close>

fun setitem_str :: "json \<Rightarrow> string \<Rightarrow> json \<Rightarrow> error + json" where
  "setitem_str (JObj d) k v = Inr (JObj (AList.update k v d))"
| "setitem_str _ k v = Inl TypeError"

text \<open>
  \<open>c[-1][key] = value\<close>: the last element of \<open>c\<close> is changed in place, so the list holds
  the changed element afterwards.
\<close>

fun store_last :: "json \<Rightarrow> json \<Rightarrow> json" where
  "store_last (JList xs) l = JList (butlast xs @ [l])"
| "store_last c l = c"

definition set_in_last :: "json \<Rightarrow> string \<Rightarrow> json \<Rightarrow> error + json" where
  "set_in_last c k v =
     (case py_last c of
        Inl e \<Rightarrow> Inl e
      | Inr l \<Rightarrow> (case setitem_str l k v of Inl e \<Rightarrow> Inl e | Inr l' \<Rightarrow> Inr (store_last c l')))"

text \<open>\<open>c.append(x)\<close>: only a list has the method.\<close>

fun py_append :: "json \<Rightarrow> json \<Rightarrow> error + json" where
  "py_append (JList xs) x = Inr (JList (xs @ [x]))"
| "py_append _ x = Inl AttributeError"

text \<open>
  \<open>key in x\<close> for a string \<open>key\<close>: a key of the dict, an element of the list, a substring
  of the string; any other value raises \<open>TypeError\<close>.
\<close>

fun py_contains :: "json \<Rightarrow> string \<Rightarrow> error + bool" where
  "py_contains (JObj d) k = Inr (has_key k d)"
| "py_contains (JList xs) k = Inr (list_ex (\<lambda>x. py_eq x (JStr k)) xs)"
| "py_contains (JStr s) k = Inr (sublist k s)"
| "py_contains _ k = Inl TypeError"

text \<open>
  Lines 97 to 101: \<open>@base\<close> is written into the last element of the context; when that
  raises anything, a new mapping is appended.
\<close>

definition add_base :: "json \<Rightarrow> string \<Rightarrow> error + json" where
  "add_base c base =
     (case set_in_last c ''@base'' (JStr base) of
        Inr c' \<Rightarrow> Inr c'
      | Inl e \<Rightarrow> py_append c (JObj [(''@base'', JStr base)]))"

text \<open>
  Lines 104 to 108: \<open>@vocab\<close> is written into the last element of the context unless that
  element already contains \<open>@vocab\<close>; when the test or the write raises anything, a new
  mapping is appended.
\<close>

definition try_vocab :: "json \<Rightarrow> string \<Rightarrow> error + json" where
  "try_vocab c vocab =
     (case py_last c of
        Inl e \<Rightarrow> Inl e
      | Inr l \<Rightarrow>
          (case py_contains l ''@vocab'' of
             Inl e \<Rightarrow> Inl e
           | Inr b \<Rightarrow> if \<not> b then set_in_last c ''@vocab'' (JStr vocab) else Inr c))"

definition add_vocab :: "json \<Rightarrow> string \<Rightarrow> error + json" where
  "add_vocab c vocab =
     (case try_vocab c vocab of
        Inr c' \<Rightarrow> Inr c'
      | Inl e \<Rightarrow> py_append c (JObj [(''@vocab'', JStr vocab)]))"

text \<open>
  The object under construction: the field \<open>remote_context_keys\<close> and the dictionary
  \<open>self.document\<close>.
\<close>

record Document =
  remote_keys :: "string list"
  document :: dict

text \<open>
  Lines 95 to 101 and 103 to 108 on \<open>self.document\<close>. An argument that is \<open>None\<close> or the
  empty string is falsy and skips the block.
\<close>

definition with_uri :: "dict \<Rightarrow> string \<Rightarrow> error + dict" where
  "with_uri doc uri =
     (let doc1 = AList.update ''id'' (JStr uri) doc
      in case getitem_str (JObj doc1) ''@context'' of
           Inl e \<Rightarrow> Inl e
         | Inr c \<Rightarrow>
             (case add_base c (uri @ ''#'') of
                Inl e \<Rightarrow> Inl e
              | Inr c' \<Rightarrow> Inr (AList.update ''@context'' c' doc1)))"

definition with_vocab :: "dict \<Rightarrow> string \<Rightarrow> error + dict" where
  "with_vocab doc vocab =
     (case getitem_str (JObj doc) ''@context'' of
        Inl e \<Rightarrow> Inl e
      | Inr c \<Rightarrow>
          (case add_vocab c vocab of
             Inl e \<Rightarrow> Inl e
           | Inr c' \<Rightarrow> Inr (AList.update ''@context'' c' doc)))"

fun when_given :: "string option \<Rightarrow> (dict \<Rightarrow> string \<Rightarrow> error + dict) \<Rightarrow> dict \<Rightarrow> error + dict" where
  "when_given None f doc = Inr doc"
| "when_given (Some s) f doc = (if s = [] then Inr doc else f doc s)"

text \<open>
  The constructor. Its first argument is the content tree, the value of
  \<open>Template.transform(markdown)\<close>: the module \<open>articular.template\<close> is not part of the
  sources at hand. \<open>content.pop('@context')\<close> raises \<open>KeyError\<close> when the key is missing.
\<close>

definition Document_init ::
  "dict \<Rightarrow> string option \<Rightarrow> dict option \<Rightarrow> string option \<Rightarrow> error + Document" where
  "Document_init content uri context vocab =
     (case map_of content ''@context'' of
        None \<Rightarrow> Inl KeyError
      | Some user_contexts \<Rightarrow>
          (let content1 = AList.delete ''@context'' content;
               keys = remote_context_keys user_contexts
           in case deduplicate_context keys user_contexts context of
                Inl e \<Rightarrow> Inl e
              | Inr clean_context \<Rightarrow>
                  (case when_given uri with_uri [(''@context'', clean_context)] of
                     Inl e \<Rightarrow> Inl e
                   | Inr doc1 \<Rightarrow>
                       (case when_given vocab with_vocab doc1 of
                          Inl e \<Rightarrow> Inl e
                        | Inr doc2 \<Rightarrow>
                            Inr \<lparr>remote_keys = keys,
                                 document = dict_update doc2 content1\<rparr>))))"

text \<open>The value of \<open>@context\<close> in the document that was built.\<close>

definition context_of :: "Document \<Rightarrow> json option" where
  "context_of self = map_of (document self) ''@context''"

section \<open>Document.framed\<close>

text \<open>The address of the ontology's context, the literal of line 168.\<close>

definition articular_json :: string where
  "articular_json = ''https://edwardanderson.github.io/articular/ns/v1/articular.json''"

text \<open>
  \<open>x[0] = value\<close> on a list. On a dict the assignment would add the integer key \<open>0\<close>,
  which the dictionaries of this development (string keys) cannot hold: that case is
  reported as \<open>NotModelled\<close>.
\<close>

datatype failure = Raised error | NotModelled

fun setitem_0 :: "json \<Rightarrow> json \<Rightarrow> failure + json" where
  "setitem_0 (JList xs) v = (if xs = [] then Inl (Raised IndexError) else Inr (JList (v # tl xs)))"
| "setitem_0 (JObj d) v = Inl NotModelled"
| "setitem_0 _ v = Inl (Raised TypeError)"

fun raised :: "error + 'a \<Rightarrow> failure + 'a" where
  "raised (Inl e) = Inl (Raised e)"
| "raised (Inr x) = Inr x"

text \<open>Line 168 on the framed document: \<open>framed['@context'][0] = ...\<close>.\<close>

definition restore_first :: "json \<Rightarrow> failure + json" where
  "restore_first framed_doc =
     (case raised (getitem_str framed_doc ''@context'') of
        Inl e \<Rightarrow> Inl e
      | Inr c \<Rightarrow>
          (case setitem_0 c (JStr articular_json) of
             Inl e \<Rightarrow> Inl e
           | Inr c' \<Rightarrow> raised (setitem_str framed_doc ''@context'' c')))"

text \<open>
  The property \<open>framed\<close>, as a function from the object to the value handed to
  \<open>Template._dump\<close> and the object afterwards. \<open>ctx\<close> is the parsed file
  \<open>docs/ns/v1/articular.json\<close> and \<open>jsonld_frame\<close> is \<open>jsonld.frame\<close> of the library pyld;
  both are parameters. \<open>context\<close> is the very list held by \<open>self.document\<close>, so the
  assignment of line 161 changes the document. \<open>jsonld_frame\<close> is a function on values:
  its result is a new tree that shares nothing with its arguments.
\<close>

definition framed ::
  "(json \<Rightarrow> json \<Rightarrow> error + json) \<Rightarrow> json \<Rightarrow> Document \<Rightarrow> (failure + json) \<times> Document" where
  "framed jsonld_frame ctx self =
     (case raised (getitem_str (JObj (document self)) ''@context'') of
        Inl e \<Rightarrow> (Inl e, self)
      | Inr context \<Rightarrow>
          (case raised (getitem_str ctx ''@context'') of
             Inl e \<Rightarrow> (Inl e, self)
           | Inr body \<Rightarrow>
               (case setitem_0 context body of
                  Inl e \<Rightarrow> (Inl e, self)
                | Inr context1 \<Rightarrow>
                    (let self1 = self\<lparr>document := AList.update ''@context'' context1 (document self)\<rparr>
                     in case raised (getitem_str (JObj (document self1)) ''id'') of
                          Inl e \<Rightarrow> (Inl e, self1)
                        | Inr ident \<Rightarrow>
                            (case raised (jsonld_frame (JObj (document self1))
                                    (JObj [(''@context'', context1),
                                           (''@embed'', JStr ''@always''),
                                           (''@id'', ident)])) of
                               Inl e \<Rightarrow> (Inl e, self1)
                             | Inr framed_doc \<Rightarrow> (restore_first framed_doc, self1))))))"

section \<open>The loop that removes empty contexts\<close>

lemma falsy_not_eq_truthy: "\<not> truthy x \<Longrightarrow> truthy y \<Longrightarrow> \<not> py_eq y x"
  by (cases x; cases y) (auto split: if_splits)

lemma falsy_eq_self: "\<not> truthy x \<Longrightarrow> py_eq x x"
  by (cases x) auto

lemma list_remove_first_falsy:
  "\<forall>y \<in> set pre. truthy y \<Longrightarrow> \<not> truthy x \<Longrightarrow> list_remove x (pre @ x # xs) = Inr (pre @ xs)"
  by (induction pre) (auto simp: falsy_not_eq_truthy falsy_eq_self)

lemma remove_empty_append:
  "\<forall>y \<in> set pre. truthy y \<Longrightarrow>
   remove_empty (JList (pre @ xs)) xs = Inr (JList (pre @ filter truthy xs))"
proof (induction xs arbitrary: pre)
  case Nil
  then show ?case by simp
next
  case (Cons x xs)
  show ?case
  proof (cases "truthy x")
    case True
    with Cons.prems have "\<forall>y \<in> set (pre @ [x]). truthy y" by simp
    from Cons.IH [OF this] True show ?thesis by simp
  next
    case False
    with Cons.prems have "list_remove x (pre @ x # xs) = Inr (pre @ xs)"
      by (simp add: list_remove_first_falsy)
    with False Cons.IH [OF Cons.prems] show ?thesis by simp
  qed
qed

lemma remove_empty_list: "remove_empty (JList xs) xs = Inr (JList (filter truthy xs))"
  using remove_empty_append [of "[]" xs] by simp

lemma deduplicate_context_list:
  "aggregate_remote keys context = Inr remote_context \<Longrightarrow>
   deduplicate_context keys (JList xs) context =
     Inr (JList (filter truthy (map (clean_item remote_context) xs)))"
  by (simp add: deduplicate_context_def remove_empty_list)

text \<open>
  C10. After deduplication of a local context that is a list, every falsy entry is gone,
  not only the empty mappings: the returned sequence holds no empty string, no empty list,
  no \<open>None\<close>, no \<open>0\<close>, no \<open>False\<close> and no empty mapping, and every element it holds is
  truthy. The call returns whenever the cached remote contexts could be merged.
\<close>

theorem falsy_entries_removed:
  assumes "aggregate_remote keys context = Inr remote_context"
  shows "\<exists>ys. deduplicate_context keys (JList xs) context = Inr (JList ys) \<and>
           (\<forall>y \<in> set ys. truthy y) \<and>
           JStr [] \<notin> set ys \<and> JList [] \<notin> set ys \<and> JNull \<notin> set ys \<and>
           JInt 0 \<notin> set ys \<and> JBool False \<notin> set ys \<and> JObj [] \<notin> set ys"
proof -
  let ?ys = "filter truthy (map (clean_item remote_context) xs)"
  have "deduplicate_context keys (JList xs) context = Inr (JList ?ys)"
    using assms by (rule deduplicate_context_list)
  moreover have "\<forall>y \<in> set ?ys. truthy y" by simp
  moreover have "JStr [] \<notin> set ?ys" "JList [] \<notin> set ?ys" "JNull \<notin> set ?ys"
    "JInt 0 \<notin> set ?ys" "JBool False \<notin> set ?ys" "JObj [] \<notin> set ?ys"
    by auto
  ultimately show ?thesis by blast
qed

theorem falsy_entries_removed_witness:
  "aggregate_remote [] None = Inr [] \<and>
   (\<exists>ys. deduplicate_context []
            (JList [JStr [], JList [], JNull, JInt 0, JStr ''a'', JObj []]) None = Inr (JList ys) \<and>
          (\<forall>y \<in> set ys. truthy y) \<and>
          JStr [] \<notin> set ys \<and> JList [] \<notin> set ys \<and> JNull \<notin> set ys \<and>
          JInt 0 \<notin> set ys \<and> JBool False \<notin> set ys \<and> JObj [] \<notin> set ys)"
proof -
  have h: "aggregate_remote [] None = Inr []" by (simp add: aggregate_remote_def)
  show ?thesis
    using h falsy_entries_removed [OF h, of "[JStr [], JList [], JNull, JInt 0, JStr ''a'', JObj []]"]
    by blast
qed

section \<open>What cleaning an item removes\<close>

lemma map_of_delete_same: "map_of (AList.delete k d) k = None"
  by (simp add: AList.delete_eq map_of_eq_None_iff image_iff)

lemma map_of_delete_other: "k' \<noteq> k \<Longrightarrow> map_of (AList.delete k d) k' = map_of d k'"
  by (induction d) auto

lemma delete_as_filter: "AList.delete k d = filter (\<lambda>kv. fst kv \<noteq> k) d"
  by (induction d) auto

lemma map_of_filter_keys:
  "map_of (filter (\<lambda>kv. P (fst kv)) d) k = (if P k then map_of d k else None)"
  by (induction d) auto

lemma visit_key_removable:
  "visit_key r k d = (if removable r d k then AList.delete k d else d)"
  by (auto simp: visit_key_def removable_def Let_def map_of_delete_same
      split: option.splits json.splits)

lemma fold_visit_key:
  "fold (visit_key r) ks d = filter (\<lambda>kv. \<not> (fst kv \<in> set ks \<and> removable r d (fst kv))) d"
proof (induction ks arbitrary: d)
  case Nil
  then show ?case by simp
next
  case (Cons k ks)
  have step: "fold (visit_key r) (k # ks) d = fold (visit_key r) ks (visit_key r k d)" by simp
  show ?case
  proof (cases "removable r d k")
    case False
    then have "visit_key r k d = d" by (simp add: visit_key_removable)
    with False show ?thesis
      unfolding step Cons.IH by (auto intro!: filter_cong)
  next
    case True
    have same: "removable r (AList.delete k d) k' = removable r d k'" if "k' \<noteq> k" for k'
      using that by (simp add: removable_def map_of_delete_other)
    from True have "visit_key r k d = AList.delete k d" by (simp add: visit_key_removable)
    with True show ?thesis
      unfolding step Cons.IH
      using same [unfolded delete_as_filter]
      by (auto simp: delete_as_filter intro!: filter_cong) metis
  qed
qed

lemma clean_item_obj:
  "clean_item r (JObj d) = JObj (filter (\<lambda>kv. \<not> removable r d (fst kv)) d)"
  by (auto simp: clean_item_def fold_visit_key intro!: filter_cong)


lemma clean_item_non_obj: "(\<And>d. x \<noteq> JObj d) \<Longrightarrow> clean_item r x = x"
  by (cases x) (auto simp: clean_item_def)

lemma clean_item_idem: "clean_item r (clean_item r x) = clean_item r x"
proof (cases x)
  case (JObj d)
  let ?d' = "filter (\<lambda>kv. \<not> removable r d (fst kv)) d"
  have "map_of ?d' k = (if \<not> removable r d k then map_of d k else None)" for k
    using map_of_filter_keys [of "\<lambda>k. \<not> removable r d k" d k] by simp
  then have "\<not> removable r d k \<Longrightarrow> \<not> removable r ?d' k" for k
    by (simp add: removable_def)
  then have "filter (\<lambda>kv. \<not> removable r ?d' (fst kv)) ?d' = ?d'"
    by (auto intro!: filter_cong)
  with JObj show ?thesis by (simp add: clean_item_obj)
qed (simp_all add: clean_item_def)

lemma filter_clean_idem:
  "filter truthy (map (clean_item r) (filter truthy (map (clean_item r) xs))) =
   filter truthy (map (clean_item r) xs)"
  by (induction xs) (auto simp: clean_item_idem)

lemma remove_empty_non_list:
  "(\<And>xs. uc \<noteq> JList xs) \<Longrightarrow> remove_empty uc items = Inr r \<Longrightarrow> r = uc"
proof (induction items)
  case Nil
  then show ?case by simp
next
  case (Cons item items)
  from Cons.prems(1) have "py_remove uc item = Inl AttributeError"
    by (cases uc) auto
  with Cons show ?case by (auto split: if_splits)
qed

lemma deduplicate_idempotent:
  assumes "deduplicate_context keys uc context = Inr r"
  shows "deduplicate_context keys r context = Inr r"
proof -
  from assms obtain remote where remote: "aggregate_remote keys context = Inr remote"
    by (auto simp: deduplicate_context_def split: sum.splits)
  show ?thesis
  proof (cases uc)
    case (JList xs)
    with assms remote have r: "r = JList (filter truthy (map (clean_item remote) xs))"
      by (simp add: deduplicate_context_list)
    show ?thesis
      unfolding r by (simp add: deduplicate_context_list [OF remote] filter_clean_idem)
  next
    case (JObj d)
    with assms remote have "r = uc"
      by (auto simp: deduplicate_context_def dest!: remove_empty_non_list [rotated])
    with assms show ?thesis by simp
  next
    case (JStr s)
    with assms remote have "r = uc"
      by (auto simp: deduplicate_context_def dest!: remove_empty_non_list [rotated])
    with assms show ?thesis by simp
  qed (use assms remote in \<open>simp_all add: deduplicate_context_def\<close>)
qed

lemma clean_item_user:
  assumes "\<forall>kv \<in> set d. \<exists>s. snd kv = JStr s \<and> prefix ''user:'' s"
  shows "clean_item r (JObj d) = JObj []"
proof -
  have "removable r d (fst kv)" if "kv \<in> set d" for kv
  proof -
    from that have "fst kv \<in> fst ` set d" by simp
    then obtain v where "map_of d (fst kv) = Some v"
      by (metis map_of_eq_None_iff not_None_eq)
    moreover from this have "(fst kv, v) \<in> set d" by (rule map_of_SomeD)
    ultimately show ?thesis using assms by (fastforce simp: removable_def)
  qed
  then show ?thesis by (simp add: clean_item_obj)
qed

lemma dedup_entry_dropped:
  assumes "aggregate_remote keys context = Inr remote" "clean_item remote e = JObj []"
  shows "\<exists>ys zs. deduplicate_context keys (JList pre) context = Inr (JList ys) \<and>
           deduplicate_context keys (JList post) context = Inr (JList zs) \<and>
           deduplicate_context keys (JList (pre @ e # post)) context = Inr (JList (ys @ zs))"
  using assms by (simp add: deduplicate_context_list)


lemma has_key_update: "has_key k (AList.update k' v d) = (k = k' \<or> has_key k d)"
  by (induction d) (auto simp: has_key_def)

lemma has_key_dict_update: "has_key k (dict_update d other) = (has_key k d \<or> has_key k other)"
proof -
  have "has_key k (fold (\<lambda>kv. AList.update (fst kv) (snd kv)) other d) =
        (has_key k d \<or> k \<in> fst ` set other)" for d
    by (induction other arbitrary: d) (auto simp: has_key_update)
  then show ?thesis by (simp add: dict_update_def has_key_def)
qed

lemma store_pair_keeps: "store_pair d p = Inr d' \<Longrightarrow> has_key k d \<Longrightarrow> has_key k d'"
  by (cases "(d, p)" rule: store_pair.cases) (auto simp: has_key_update)

lemma update_seq_keeps: "update_seq d xs = Inr d' \<Longrightarrow> has_key k d \<Longrightarrow> has_key k d'"
  by (induction xs arbitrary: d) (auto split: sum.splits dest: store_pair_keeps)

lemma dict_update_json_keeps:
  "dict_update_json d body = Inr d' \<Longrightarrow> has_key k d \<Longrightarrow> has_key k d'"
  by (cases body) (auto simp: has_key_dict_update split: if_splits dest: update_seq_keeps)

lemma aggregate_keeps: "aggregate c acc ks = Inr r \<Longrightarrow> has_key k acc \<Longrightarrow> has_key k r"
  by (induction ks arbitrary: acc)
     (auto split: option.splits sum.splits dest: dict_update_json_keeps)

lemma aggregate_has_remote_key:
  assumes "aggregate c acc ks = Inr r" "u \<in> set ks" "map_of c u = Some doc"
    "getitem_str doc ''@context'' = Inr (JObj body)" "has_key k body"
  shows "has_key k r"
  using assms
proof (induction ks arbitrary: acc)
  case Nil
  then show ?case by simp
next
  case (Cons key ks)
  show ?case
  proof (cases "u = key")
    case True
    with Cons.prems have "aggregate c (dict_update acc body) ks = Inr r" by simp
    moreover from Cons.prems have "has_key k (dict_update acc body)"
      by (simp add: has_key_dict_update)
    ultimately show ?thesis by (rule aggregate_keeps)
  next
    case False
    with Cons.prems have "u \<in> set ks" by simp
    with Cons.prems Cons.IH show ?thesis
      by (auto split: option.splits sum.splits)
  qed
qed

lemma remote_context_keys_list:
  "JStr u \<in> set xs \<Longrightarrow> u \<in> set (remote_context_keys (JList xs))"
  by (induction xs) (auto simp: remote_context_keys_def List.map_filter_simps split: option.splits)

lemma clean_item_sole_remote_key:
  "has_key k r \<Longrightarrow> clean_item r (JObj [(k, v)]) = JObj []"
  by (simp add: clean_item_obj removable_def)

lemma keys_after_dedup:
  "List.map_filter str_of (filter truthy (map (clean_item r) xs)) =
   filter (\<lambda>s. s \<noteq> []) (List.map_filter str_of xs)"
proof (induction xs)
  case Nil
  then show ?case by (simp add: List.map_filter_simps)
next
  case (Cons x xs)
  then show ?case
    by (cases x) (auto simp: List.map_filter_simps clean_item_def)
qed

lemma store_pair_fewer:
  assumes "store_pair d p = Inr d1" and "\<forall>k. has_key k d' \<longrightarrow> has_key k d"
  shows "\<exists>d1'. store_pair d' p = Inr d1' \<and> (\<forall>k. has_key k d1' \<longrightarrow> has_key k d1)"
  using assms by (cases "(d, p)" rule: store_pair.cases) (auto simp: has_key_update)

lemma update_seq_fewer:
  assumes "update_seq d xs = Inr d1" and "\<forall>k. has_key k d' \<longrightarrow> has_key k d"
  shows "\<exists>d1'. update_seq d' xs = Inr d1' \<and> (\<forall>k. has_key k d1' \<longrightarrow> has_key k d1)"
  using assms
proof (induction xs arbitrary: d d')
  case Nil
  then show ?case by simp
next
  case (Cons x xs)
  from Cons.prems(1) obtain p d2 where p: "pair_of x = Inr p" "store_pair d p = Inr d2"
    "update_seq d2 xs = Inr d1"
    by (auto split: sum.splits)
  from store_pair_fewer [OF p(2) Cons.prems(2)] obtain d2' where
    d2': "store_pair d' p = Inr d2'" "\<forall>k. has_key k d2' \<longrightarrow> has_key k d2" by blast
  from Cons.IH [OF p(3) d2'(2)] p(1) d2'(1) show ?case by simp
qed

lemma dict_update_json_fewer:
  assumes "dict_update_json d body = Inr d1" and "\<forall>k. has_key k d' \<longrightarrow> has_key k d"
  shows "\<exists>d1'. dict_update_json d' body = Inr d1' \<and> (\<forall>k. has_key k d1' \<longrightarrow> has_key k d1)"
  using assms
  by (cases body) (auto simp: has_key_dict_update split: if_splits intro: update_seq_fewer)

lemma aggregate_fewer:
  assumes "aggregate c acc ks = Inr r" and "\<forall>k. has_key k acc' \<longrightarrow> has_key k acc"
  shows "\<exists>r'. aggregate c acc' (filter P ks) = Inr r' \<and> (\<forall>k. has_key k r' \<longrightarrow> has_key k r)"
  using assms
proof (induction ks arbitrary: acc acc')
  case Nil
  then show ?case by simp
next
  case (Cons key ks)
  show ?case
  proof (cases "map_of c key")
    case None
    with Cons.prems have "aggregate c acc ks = Inr r" by simp
    from Cons.IH [OF this Cons.prems(2)] None show ?thesis by simp
  next
    case (Some doc)
    with Cons.prems(1) obtain body acc1 where
      b: "getitem_str doc ''@context'' = Inr body" "dict_update_json acc body = Inr acc1"
      "aggregate c acc1 ks = Inr r"
      by (auto split: sum.splits)
    show ?thesis
    proof (cases "P key")
      case True
      from dict_update_json_fewer [OF b(2) Cons.prems(2)] obtain acc1' where
        a: "dict_update_json acc' body = Inr acc1'" "\<forall>k. has_key k acc1' \<longrightarrow> has_key k acc1"
        by blast
      from Cons.IH [OF b(3) a(2)] True Some b(1) a(1) show ?thesis by simp
    next
      case False
      from Cons.prems(2) b(2) have "\<forall>k. has_key k acc' \<longrightarrow> has_key k acc1"
        by (blast dest: dict_update_json_keeps)
      from Cons.IH [OF b(3) this] False show ?thesis by simp
    qed
  qed
qed

lemma aggregate_remote_fewer:
  assumes "aggregate_remote ks context = Inr r"
  shows "\<exists>r'. aggregate_remote (filter P ks) context = Inr r' \<and>
           (\<forall>k. has_key k r' \<longrightarrow> has_key k r)"
proof (cases "context = None \<or> context = Some []")
  case True
  with assms show ?thesis by (auto simp: aggregate_remote_def)
next
  case False
  then obtain c where c: "context = Some c" "c \<noteq> []" by auto
  with assms have "aggregate c [] ks = Inr r" by (simp add: aggregate_remote_def)
  from aggregate_fewer [OF this, of "[]" P] c show ?thesis
    by (simp add: aggregate_remote_def)
qed

lemma clean_item_fewer:
  assumes "\<forall>k. has_key k r' \<longrightarrow> has_key k r"
  shows "clean_item r' (clean_item r x) = clean_item r x"
proof (cases x)
  case (JObj d)
  let ?d' = "filter (\<lambda>kv. \<not> removable r d (fst kv)) d"
  have "map_of ?d' k = (if \<not> removable r d k then map_of d k else None)" for k
    using map_of_filter_keys [of "\<lambda>k. \<not> removable r d k" d k] by simp
  with assms have "\<not> removable r d k \<Longrightarrow> \<not> removable r' ?d' k" for k
    by (auto simp: removable_def)
  then have "filter (\<lambda>kv. \<not> removable r' ?d' (fst kv)) ?d' = ?d'"
    by (auto intro!: filter_cong)
  with JObj show ?thesis by (simp add: clean_item_obj)
qed (simp_all add: clean_item_def)

lemma dedup_again_new_keys:
  assumes "deduplicate_context (remote_context_keys uc) uc context = Inr r"
  shows "deduplicate_context (remote_context_keys r) r context = Inr r"
proof -
  let ?keys = "remote_context_keys uc"
  from assms obtain remote where remote: "aggregate_remote ?keys context = Inr remote"
    by (auto simp: deduplicate_context_def split: sum.splits)
  show ?thesis
  proof (cases uc)
    case (JList xs)
    let ?ys = "filter truthy (map (clean_item remote) xs)"
    from assms remote JList have r: "r = JList ?ys"
      by (simp add: deduplicate_context_list)
    have keys: "remote_context_keys r = filter (\<lambda>s. s \<noteq> []) ?keys"
      unfolding r JList by (simp add: remote_context_keys_def keys_after_dedup)
    from aggregate_remote_fewer [OF remote, of "\<lambda>s. s \<noteq> []"] obtain remote' where
      remote': "aggregate_remote (remote_context_keys r) context = Inr remote'"
      "\<forall>k. has_key k remote' \<longrightarrow> has_key k remote"
      unfolding keys by blast
    have "filter truthy (map (clean_item remote') ?ys) = ?ys"
      by (induction xs) (auto simp: clean_item_fewer [OF remote'(2)])
    with remote'(1) show ?thesis
      unfolding r by (simp add: deduplicate_context_def remove_empty_list)
  next
    case (JObj d)
    with assms remote have "r = uc"
      by (auto simp: deduplicate_context_def dest!: remove_empty_non_list [rotated])
    with assms show ?thesis by simp
  next
    case (JStr s)
    with assms remote have "r = uc"
      by (auto simp: deduplicate_context_def dest!: remove_empty_non_list [rotated])
    with assms show ?thesis by simp
  qed (use assms remote in \<open>simp_all add: deduplicate_context_def\<close>)
qed

section \<open>Properties of deduplication\<close>

text \<open>
  C8. A mapping entry of the local context in which the value of every key is a string
  that begins with \<open>user:\<close> is removed from the deduplicated context entirely: the result
  for the whole list is the result for the entries before it followed by the result for
  the entries after it.
\<close>

theorem user_entry_removed:
  assumes "\<forall>kv \<in> set d. \<exists>s. snd kv = JStr s \<and> prefix ''user:'' s"
    and "aggregate_remote keys context = Inr remote"
  shows "\<exists>ys zs. deduplicate_context keys (JList pre) context = Inr (JList ys) \<and>
           deduplicate_context keys (JList post) context = Inr (JList zs) \<and>
           deduplicate_context keys (JList (pre @ JObj d # post)) context = Inr (JList (ys @ zs))"
proof -
  from assms(1) have "clean_item remote (JObj d) = JObj []" by (rule clean_item_user)
  with assms(2) show ?thesis by (rule dedup_entry_dropped)
qed

theorem user_entry_removed_witness:
  "deduplicate_context [] (JList [JStr ''u'',
       JObj [(''a'', JStr ''user:x''), (''b'', JStr ''user:'')], JInt 7]) None =
     Inr (JList [JStr ''u'', JInt 7])"
proof -
  have h1: "\<forall>kv \<in> set [(''a'', JStr ''user:x''), (''b'', JStr ''user:'')].
              \<exists>s. snd kv = JStr s \<and> prefix ''user:'' s"
    by simp
  have h2: "aggregate_remote [] None = Inr []" by (simp add: aggregate_remote_def)
  have pre: "deduplicate_context [] (JList [JStr ''u'']) None = Inr (JList [JStr ''u''])"
    by (simp add: deduplicate_context_def aggregate_remote_def clean_item_def)
  have post: "deduplicate_context [] (JList [JInt 7]) None = Inr (JList [JInt 7])"
    by (simp add: deduplicate_context_def aggregate_remote_def clean_item_def)
  from user_entry_removed [OF h1 h2, of "[JStr ''u'']" "[JInt 7]"] pre post
  show ?thesis by auto
qed

text \<open>
  C2. A mapping entry of the local context whose only key is also defined by a remote
  context, one that a string entry of the local context names and that the cache holds, is
  absent from the deduplicated context: the result for the whole list is the result for
  the entries before it followed by the result for the entries after it. The keys are
  those the constructor computes from the local context, and the call returns whenever
  the cached remote contexts could be merged.
\<close>

theorem remote_duplicate_entry_removed:
  assumes "JStr u \<in> set (pre @ JObj [(k, v)] # post)"
    and "map_of c u = Some doc"
    and "getitem_str doc ''@context'' = Inr (JObj body)"
    and "has_key k body"
    and "keys = remote_context_keys (JList (pre @ JObj [(k, v)] # post))"
    and "aggregate_remote keys (Some c) = Inr remote"
  shows "\<exists>ys zs. deduplicate_context keys (JList pre) (Some c) = Inr (JList ys) \<and>
           deduplicate_context keys (JList post) (Some c) = Inr (JList zs) \<and>
           deduplicate_context keys (JList (pre @ JObj [(k, v)] # post)) (Some c) =
             Inr (JList (ys @ zs))"
proof -
  from assms(2) have "c \<noteq> []" by auto
  with assms(6) have "aggregate c [] keys = Inr remote" by (simp add: aggregate_remote_def)
  moreover from assms(1,5) have "u \<in> set keys" by (simp only: remote_context_keys_list)
  ultimately have "has_key k remote"
    using assms(2,3,4) by (rule aggregate_has_remote_key)
  then have "clean_item remote (JObj [(k, v)]) = JObj []" by (rule clean_item_sole_remote_key)
  with assms(6) show ?thesis by (rule dedup_entry_dropped)
qed

theorem remote_duplicate_entry_removed_witness:
  "deduplicate_context [''u'']
     (JList [JStr ''u'', JObj [(''k'', JStr ''v'')], JObj [(''m'', JStr ''w'')]])
     (Some [(''u'', JObj [(''@context'', JObj [(''k'', JInt 1)])])]) =
   Inr (JList [JStr ''u'', JObj [(''m'', JStr ''w'')]])"
proof -
  let ?c = "[(''u'', JObj [(''@context'', JObj [(''k'', JInt 1)])])]"
  have h1: "JStr ''u'' \<in> set ([JStr ''u''] @ JObj [(''k'', JStr ''v'')] # [JObj [(''m'', JStr ''w'')]])"
    by simp
  have h2: "map_of ?c ''u'' = Some (JObj [(''@context'', JObj [(''k'', JInt 1)])])" by simp
  have h3: "getitem_str (JObj [(''@context'', JObj [(''k'', JInt 1)])]) ''@context'' =
            Inr (JObj [(''k'', JInt 1)])" by simp
  have h4: "has_key ''k'' [(''k'', JInt 1)]" by (simp add: has_key_def)
  have h5: "[''u''] = remote_context_keys
              (JList ([JStr ''u''] @ JObj [(''k'', JStr ''v'')] # [JObj [(''m'', JStr ''w'')]]))"
    by (simp add: remote_context_keys_def List.map_filter_simps)
  have h6: "aggregate_remote [''u''] (Some ?c) = Inr [(''k'', JInt 1)]"
    by (simp add: aggregate_remote_def dict_update_def)
  have pre: "deduplicate_context [''u''] (JList [JStr ''u'']) (Some ?c) = Inr (JList [JStr ''u''])"
    by (simp add: deduplicate_context_list [OF h6] clean_item_def)
  have post: "deduplicate_context [''u''] (JList [JObj [(''m'', JStr ''w'')]]) (Some ?c) =
              Inr (JList [JObj [(''m'', JStr ''w'')]])"
    by (simp add: deduplicate_context_list [OF h6] clean_item_def visit_key_def has_key_def)
  from remote_duplicate_entry_removed [OF h1 h2 h3 h4 h5 h6] pre post
  show ?thesis by auto
qed

text \<open>
  C9. Deduplication is idempotent: whenever deduplicating a local context against a cache
  returns, deduplicating the returned value against the same cache returns it unchanged.
  This holds when the second call is made by the same object, with its
  \<open>remote_context_keys\<close> as they are, and also when the keys are those of the local
  context and the second call takes the keys of the returned context.
\<close>

theorem deduplicate_context_idempotent:
  assumes "deduplicate_context keys user_context context = Inr r"
  shows "deduplicate_context keys r context = Inr r \<and>
         (keys = remote_context_keys user_context \<longrightarrow>
            deduplicate_context (remote_context_keys r) r context = Inr r)"
  using assms by (auto intro: deduplicate_idempotent dedup_again_new_keys)

theorem deduplicate_context_idempotent_witness:
  "deduplicate_context [''u'']
     (JList [JStr ''u'', JObj [(''a'', JStr ''user:x''), (''b'', JStr ''y'')], JNull]) None =
     Inr (JList [JStr ''u'', JObj [(''b'', JStr ''y'')]]) \<and>
   deduplicate_context [''u''] (JList [JStr ''u'', JObj [(''b'', JStr ''y'')]]) None =
     Inr (JList [JStr ''u'', JObj [(''b'', JStr ''y'')]]) \<and>
   deduplicate_context (remote_context_keys (JList [JStr ''u'', JObj [(''b'', JStr ''y'')]]))
     (JList [JStr ''u'', JObj [(''b'', JStr ''y'')]]) None =
     Inr (JList [JStr ''u'', JObj [(''b'', JStr ''y'')]])"
proof -
  let ?uc = "JList [JStr ''u'', JObj [(''a'', JStr ''user:x''), (''b'', JStr ''y'')], JNull]"
  have h: "deduplicate_context [''u''] ?uc None = Inr (JList [JStr ''u'', JObj [(''b'', JStr ''y'')]])"
    by (simp add: deduplicate_context_def aggregate_remote_def clean_item_def visit_key_def
        has_key_def)
  have k: "[''u''] = remote_context_keys ?uc"
    by (simp add: remote_context_keys_def List.map_filter_simps)
  from h k deduplicate_context_idempotent [OF h] show ?thesis by simp
qed

section \<open>The steps of the constructor\<close>

lemma add_base_nil: "add_base (JList []) b = Inr (JList [JObj [(''@base'', JStr b)]])"
  by (simp add: add_base_def set_in_last_def)

lemma add_base_obj:
  "add_base (JList (ys @ [JObj d])) b = Inr (JList (ys @ [JObj (AList.update ''@base'' (JStr b) d)]))"
  by (simp add: add_base_def set_in_last_def)

lemma add_base_other:
  "(\<And>d. x \<noteq> JObj d) \<Longrightarrow>
   add_base (JList (ys @ [x])) b = Inr (JList (ys @ [x, JObj [(''@base'', JStr b)]]))"
  by (cases x) (auto simp: add_base_def set_in_last_def)

lemma add_vocab_nil: "add_vocab (JList []) v = Inr (JList [JObj [(''@vocab'', JStr v)]])"
  by (simp add: add_vocab_def try_vocab_def)

lemma add_vocab_obj_new:
  "\<not> has_key ''@vocab'' d \<Longrightarrow>
   add_vocab (JList (ys @ [JObj d])) v = Inr (JList (ys @ [JObj (AList.update ''@vocab'' (JStr v) d)]))"
  by (simp add: add_vocab_def try_vocab_def set_in_last_def)

lemma add_vocab_obj_old:
  "has_key ''@vocab'' d \<Longrightarrow> add_vocab (JList (ys @ [JObj d])) v = Inr (JList (ys @ [JObj d]))"
  by (simp add: add_vocab_def try_vocab_def)

lemma add_vocab_other:
  "(\<And>d. x \<noteq> JObj d) \<Longrightarrow> py_contains x ''@vocab'' \<noteq> Inr True \<Longrightarrow>
   add_vocab (JList (ys @ [x])) v = Inr (JList (ys @ [x, JObj [(''@vocab'', JStr v)]]))"
  by (cases x) (auto simp: add_vocab_def try_vocab_def set_in_last_def)

lemma map_of_dict_update_other:
  "k \<notin> fst ` set other \<Longrightarrow> map_of (dict_update d other) k = map_of d k"
proof -
  have "k \<notin> fst ` set other \<Longrightarrow>
        map_of (fold (\<lambda>kv. AList.update (fst kv) (snd kv)) other d) k = map_of d k" for d
    by (induction other arbitrary: d) (auto simp: update_conv')
  then show "k \<notin> fst ` set other \<Longrightarrow> ?thesis" by (simp add: dict_update_def)
qed

lemma context_after_update:
  "map_of (dict_update d (AList.delete ''@context'' content)) ''@context'' = map_of d ''@context''"
  by (rule map_of_dict_update_other) (rule delete_notin_dom)

lemma with_uri_start:
  "with_uri [(''@context'', c)] u =
     (case add_base c (u @ ''#'') of Inl e \<Rightarrow> Inl e
      | Inr c' \<Rightarrow> Inr [(''@context'', c'), (''id'', JStr u)])"
  by (simp add: with_uri_def split: sum.splits)

lemma with_vocab_at:
  "map_of doc ''@context'' = Some c \<Longrightarrow>
   with_vocab doc v =
     (case add_vocab c v of Inl e \<Rightarrow> Inl e | Inr c' \<Rightarrow> Inr (AList.update ''@context'' c' doc))"
  by (simp add: with_vocab_def)

lemma Document_init_list:
  assumes "map_of content ''@context'' = Some (JList xs)"
    and "aggregate_remote (remote_context_keys (JList xs)) context = Inr remote"
  shows "Document_init content uri context vocab =
     (case when_given uri with_uri
             [(''@context'', JList (filter truthy (map (clean_item remote) xs)))] of
        Inl e \<Rightarrow> Inl e
      | Inr doc1 \<Rightarrow>
          (case when_given vocab with_vocab doc1 of
             Inl e \<Rightarrow> Inl e
           | Inr doc2 \<Rightarrow>
               Inr \<lparr>remote_keys = remote_context_keys (JList xs),
                    document = dict_update doc2 (AList.delete ''@context'' content)\<rparr>))"
  using assms by (simp add: Document_init_def deduplicate_context_list)


lemma add_vocab_contains:
  "py_contains x ''@vocab'' = Inr True \<Longrightarrow> add_vocab (JList (ys @ [x])) v = Inr (JList (ys @ [x]))"
  by (simp add: add_vocab_def try_vocab_def)

lemma add_base_keeps_front:
  assumes "(\<forall>d. l \<noteq> JObj d) \<or> ys \<noteq> []"
  shows "\<exists>zs. add_base (JList (ys @ [l])) b = Inr (JList (hd (ys @ [l]) # zs))"
proof (cases "\<exists>d. l = JObj d")
  case True
  then obtain d where d: "l = JObj d" by blast
  with assms have "ys \<noteq> []" by auto
  with d add_base_obj [of ys d b] show ?thesis by (cases ys) auto
next
  case False
  then have "\<And>d. l \<noteq> JObj d" by blast
  from add_base_other [OF this, of ys b] show ?thesis by (cases ys) auto
qed

lemma add_vocab_keeps_front:
  assumes "(\<forall>d. l \<noteq> JObj d) \<or> ys \<noteq> []"
  shows "\<exists>zs. add_vocab (JList (ys @ [l])) v = Inr (JList (hd (ys @ [l]) # zs))"
proof (cases "py_contains l ''@vocab'' = Inr True")
  case True
  from add_vocab_contains [OF this, of ys v] show ?thesis by (cases ys) auto
next
  case nc: False
  show ?thesis
  proof (cases "\<exists>d. l = JObj d")
    case True
    then obtain d where d: "l = JObj d" by blast
    with assms have "ys \<noteq> []" by auto
    moreover from d nc have "\<not> has_key ''@vocab'' d" by simp
    ultimately show ?thesis
      using d add_vocab_obj_new [of d ys v] by (cases ys) auto
  next
    case False
    then have "\<And>d. l \<noteq> JObj d" by blast
    from add_vocab_other [OF this nc, of ys v] show ?thesis by (cases ys) auto
  qed
qed

lemma when_uri_keeps_first:
  "\<exists>doc zs. when_given uri with_uri [(''@context'', JList (JStr a # xs))] = Inr doc \<and>
     map_of doc ''@context'' = Some (JList (JStr a # zs))"
proof (cases "uri = None \<or> uri = Some []")
  case True
  then show ?thesis by auto
next
  case False
  then obtain u where u: "uri = Some u" "u \<noteq> []" by auto
  obtain ys l where "JStr a # xs = ys @ [l]" "(\<forall>d. l \<noteq> JObj d) \<or> ys \<noteq> []"
    by (cases xs rule: rev_cases) auto
  with add_base_keeps_front [of l ys "u @ ''#''"]
  obtain zs where "add_base (JList (JStr a # xs)) (u @ ''#'') = Inr (JList (JStr a # zs))"
    by (metis list.sel(1))
  with u show ?thesis by (simp add: with_uri_start)
qed

lemma when_vocab_keeps_first:
  assumes "map_of doc ''@context'' = Some (JList (JStr a # xs))"
  shows "\<exists>doc' zs. when_given vocab with_vocab doc = Inr doc' \<and>
     map_of doc' ''@context'' = Some (JList (JStr a # zs))"
proof (cases "vocab = None \<or> vocab = Some []")
  case True
  with assms show ?thesis by auto
next
  case False
  then obtain v where v: "vocab = Some v" "v \<noteq> []" by auto
  obtain ys l where "JStr a # xs = ys @ [l]" "(\<forall>d. l \<noteq> JObj d) \<or> ys \<noteq> []"
    by (cases xs rule: rev_cases) auto
  with add_vocab_keeps_front [of l ys v]
  obtain zs where "add_vocab (JList (JStr a # xs)) v = Inr (JList (JStr a # zs))"
    by (metis list.sel(1))
  with v assms show ?thesis by (simp add: with_vocab_at update_conv')
qed

lemma clean_item_keys:
  "clean_item r x = JObj d' \<Longrightarrow> \<exists>d. x = JObj d \<and> set d' \<subseteq> set d"
proof (cases x)
  case (JObj d)
  assume "clean_item r x = JObj d'"
  with JObj show ?thesis by (auto simp: clean_item_obj)
qed (simp_all add: clean_item_def)

lemma has_key_mono: "set d' \<subseteq> set d \<Longrightarrow> has_key k d' \<Longrightarrow> has_key k d"
  by (auto simp: has_key_def)

lemma no_marker_clean:
  assumes "\<forall>x \<in> set xs. \<forall>d. x = JObj d \<longrightarrow> \<not> has_key ''@base'' d \<and> \<not> has_key ''@vocab'' d"
  shows "\<forall>x \<in> set (filter truthy (map (clean_item r) xs)).
           \<forall>d. x = JObj d \<longrightarrow> \<not> has_key ''@base'' d \<and> \<not> has_key ''@vocab'' d"
proof (intro ballI allI impI)
  fix y d'
  assume "y \<in> set (filter truthy (map (clean_item r) xs))" and y: "y = JObj d'"
  then obtain x where x: "x \<in> set xs" "clean_item r x = JObj d'" by auto
  from clean_item_keys [OF x(2)] obtain d where d: "x = JObj d" "set d' \<subseteq> set d" by blast
  with assms x(1) have "\<not> has_key ''@base'' d \<and> \<not> has_key ''@vocab'' d" by blast
  with d(2) show "\<not> has_key ''@base'' d' \<and> \<not> has_key ''@vocab'' d'"
    by (blast dest: has_key_mono)
qed

lemma add_base_fresh:
  assumes "\<forall>x \<in> set cs. \<forall>d. x = JObj d \<longrightarrow> \<not> has_key ''@base'' d \<and> \<not> has_key ''@vocab'' d"
  shows "\<exists>ys d1. add_base (JList cs) b = Inr (JList (ys @ [JObj d1])) \<and> set ys \<subseteq> set cs \<and>
           map_of d1 ''@base'' = Some (JStr b) \<and> \<not> has_key ''@vocab'' d1"
proof (cases cs rule: rev_cases)
  case Nil
  have "add_base (JList []) b = Inr (JList ([] @ [JObj [(''@base'', JStr b)]]))"
    by (simp add: add_base_nil)
  with Nil show ?thesis by (fastforce simp: has_key_def)
next
  case (snoc zs l)
  show ?thesis
  proof (cases "\<exists>d. l = JObj d")
    case True
    then obtain d where d: "l = JObj d" by blast
    with assms snoc have "\<not> has_key ''@vocab'' d" by simp
    then have "\<not> has_key ''@vocab'' (AList.update ''@base'' (JStr b) d)"
      by (simp add: has_key_update)
    moreover have "map_of (AList.update ''@base'' (JStr b) d) ''@base'' = Some (JStr b)"
      by (simp add: update_conv')
    moreover have "set zs \<subseteq> set cs" using snoc by auto
    ultimately show ?thesis
      using add_base_obj [of zs d b] snoc d by blast
  next
    case False
    then have "\<And>d. l \<noteq> JObj d" by blast
    from add_base_other [OF this, of zs b]
    have "add_base (JList cs) b = Inr (JList ((zs @ [l]) @ [JObj [(''@base'', JStr b)]]))"
      using snoc by simp
    moreover have "set (zs @ [l]) \<subseteq> set cs" using snoc by simp
    moreover have "map_of [(''@base'', JStr b)] ''@base'' = Some (JStr b)" by simp
    moreover have "\<not> has_key ''@vocab'' [(''@base'', JStr b)]" by (simp add: has_key_def)
    ultimately show ?thesis by blast
  qed
qed

section \<open>Properties of the constructor\<close>

text \<open>
  C1, as the code has it. The constructor puts nothing in front of the local context: the
  address of the ontology is first in the document's \<open>@context\<close> when it is first in the
  \<open>@context\<close> list of the content tree. Then, for every uri, cache and vocab, construction
  returns (provided the cached remote contexts could be merged) and the \<open>@context\<close> of the
  document is a list whose first element is that address.
\<close>

theorem ontology_uri_stays_first:
  assumes "map_of content ''@context'' = Some (JList (JStr articular_json # rest))"
    and "aggregate_remote (remote_context_keys (JList (JStr articular_json # rest))) context =
           Inr remote"
  shows "\<exists>self rest'. Document_init content uri context vocab = Inr self \<and>
           context_of self = Some (JList (JStr articular_json # rest'))"
proof -
  let ?cs = "filter truthy (map (clean_item remote) rest)"
  have cs: "filter truthy (map (clean_item remote) (JStr articular_json # rest)) =
            JStr articular_json # ?cs"
    by (simp add: clean_item_def articular_json_def)
  obtain doc1 zs1 where doc1:
    "when_given uri with_uri [(''@context'', JList (JStr articular_json # ?cs))] = Inr doc1"
    "map_of doc1 ''@context'' = Some (JList (JStr articular_json # zs1))"
    using when_uri_keeps_first by blast
  obtain doc2 zs2 where doc2:
    "when_given vocab with_vocab doc1 = Inr doc2"
    "map_of doc2 ''@context'' = Some (JList (JStr articular_json # zs2))"
    using when_vocab_keeps_first [OF doc1(2)] by blast
  show ?thesis
    unfolding Document_init_list [OF assms] cs
    by (simp add: doc1 doc2 context_of_def context_after_update)
qed

theorem ontology_uri_stays_first_witness:
  "\<exists>self rest'.
     Document_init
       [(''@context'', JList [JStr articular_json, JObj [(''Book'', JStr ''https://schema.org/Book'')]]),
        (''type'', JStr ''Book'')] (Some ''docs/alpha'') None None = Inr self \<and>
     context_of self = Some (JList (JStr articular_json # rest'))"
proof -
  let ?rest = "[JObj [(''Book'', JStr ''https://schema.org/Book'')]]"
  let ?content = "[(''@context'', JList (JStr articular_json # ?rest)), (''type'', JStr ''Book'')]"
  have h1: "map_of ?content ''@context'' = Some (JList (JStr articular_json # ?rest))" by simp
  have h2: "aggregate_remote (remote_context_keys (JList (JStr articular_json # ?rest))) None =
            Inr []"
    by (simp add: aggregate_remote_def)
  from ontology_uri_stays_first [OF h1 h2, of "Some ''docs/alpha''" None]
  show ?thesis by simp
qed

text \<open>
  C1 as stated fails: for the content tree
  \<open>{"@context": [{"Book": "https://schema.org/Book"}], "type": "Book"}\<close>, without uri, cache
  and vocab, the \<open>@context\<close> of the document is the local context alone.
\<close>

theorem ontology_uri_not_added:
  "Document_init
     [(''@context'', JList [JObj [(''Book'', JStr ''https://schema.org/Book'')]]),
      (''type'', JStr ''Book'')] None None None =
   Inr \<lparr>remote_keys = [],
        document = [(''@context'', JList [JObj [(''Book'', JStr ''https://schema.org/Book'')]]),
                    (''type'', JStr ''Book'')]\<rparr> \<and>
   context_of
     \<lparr>remote_keys = [],
      document = [(''@context'', JList [JObj [(''Book'', JStr ''https://schema.org/Book'')]]),
                  (''type'', JStr ''Book'')]\<rparr> =
     Some (JList [JObj [(''Book'', JStr ''https://schema.org/Book'')]]) \<and>
   JObj [(''Book'', JStr ''https://schema.org/Book'')] \<noteq> JStr articular_json"
  by (simp add: Document_init_def remote_context_keys_def
      deduplicate_context_def aggregate_remote_def clean_item_def visit_key_def has_key_def
      dict_update_def context_of_def)

text \<open>
  C4, evaluated: a content tree whose \<open>@context\<close> is \<open>None\<close> or a number makes the
  constructor raise \<open>TypeError\<close>, although the keys computed from it are the empty list, and
  a content tree without \<open>@context\<close> makes it raise \<open>KeyError\<close>.
\<close>

theorem non_list_context_raises:
  "Document_init [(''@context'', JNull), (''type'', JStr ''Book'')] None None None = Inl TypeError \<and>
   Document_init [(''@context'', JInt 5), (''type'', JStr ''Book'')] None None None = Inl TypeError \<and>
   Document_init [(''type'', JStr ''Book'')] None None None = Inl KeyError \<and>
   remote_context_keys JNull = []"
  by (simp add: Document_init_def remote_context_keys_def deduplicate_context_def
      aggregate_remote_def)


text \<open>
  C5, as the code has it. When a vocab is supplied and the context of the document is a
  list: an empty list gets the mapping \<open>{"@vocab": vocab}\<close>; a trailing mapping without
  \<open>@vocab\<close> gets the field; a trailing mapping that already defines \<open>@vocab\<close> leaves the
  document as it is, and nothing is appended; a trailing element that is not a mapping,
  and of which \<open>'@vocab' in\<close> is not true, is followed by a new mapping
  \<open>{"@vocab": vocab}\<close>.
\<close>

theorem vocab_placement:
  assumes "vocab \<noteq> []" and "map_of doc ''@context'' = Some (JList xs)"
  shows "(xs = [] \<longrightarrow>
            when_given (Some vocab) with_vocab doc =
              Inr (AList.update ''@context'' (JList [JObj [(''@vocab'', JStr vocab)]]) doc)) \<and>
         (\<forall>ys d. xs = ys @ [JObj d] \<and> \<not> has_key ''@vocab'' d \<longrightarrow>
            when_given (Some vocab) with_vocab doc =
              Inr (AList.update ''@context''
                     (JList (ys @ [JObj (AList.update ''@vocab'' (JStr vocab) d)])) doc)) \<and>
         (\<forall>ys d. xs = ys @ [JObj d] \<and> has_key ''@vocab'' d \<longrightarrow>
            when_given (Some vocab) with_vocab doc = Inr doc) \<and>
         (\<forall>ys x. xs = ys @ [x] \<and> (\<forall>d. x \<noteq> JObj d) \<and> py_contains x ''@vocab'' \<noteq> Inr True \<longrightarrow>
            when_given (Some vocab) with_vocab doc =
              Inr (AList.update ''@context''
                     (JList (ys @ [x, JObj [(''@vocab'', JStr vocab)]])) doc))"
proof -
  have run: "when_given (Some vocab) with_vocab doc =
     (case add_vocab (JList xs) vocab of Inl e \<Rightarrow> Inl e
      | Inr c' \<Rightarrow> Inr (AList.update ''@context'' c' doc))"
    using assms by (simp add: with_vocab_at)
  have same: "AList.update ''@context'' (JList xs) doc = doc"
    using assms(2) by (rule update_triv)
  show ?thesis
    unfolding run
    using same
    by (auto simp: add_vocab_nil add_vocab_obj_new add_vocab_obj_old add_vocab_other)
qed

theorem vocab_placement_witness:
  "when_given (Some ''http://v/'') with_vocab
     [(''@context'', JList [JStr ''u'', JObj [(''@base'', JStr ''x#'')]])] =
   Inr [(''@context'', JList [JStr ''u'', JObj [(''@base'', JStr ''x#''), (''@vocab'', JStr ''http://v/'')]])]"
proof -
  let ?doc = "[(''@context'', JList [JStr ''u'', JObj [(''@base'', JStr ''x#'')]])]"
  have h1: "''http://v/'' \<noteq> []" by simp
  have h2: "map_of ?doc ''@context'' = Some (JList [JStr ''u'', JObj [(''@base'', JStr ''x#'')]])"
    by simp
  have h3: "[JStr ''u'', JObj [(''@base'', JStr ''x#'')]] = [JStr ''u''] @ [JObj [(''@base'', JStr ''x#'')]] \<and>
            \<not> has_key ''@vocab'' [(''@base'', JStr ''x#'')]"
    by (simp add: has_key_def)
  from vocab_placement [OF h1 h2] h3
  have "when_given (Some ''http://v/'') with_vocab ?doc =
          Inr (AList.update ''@context''
                 (JList ([JStr ''u''] @ [JObj (AList.update ''@vocab'' (JStr ''http://v/'')
                                                 [(''@base'', JStr ''x#'')])])) ?doc)"
    by blast
  then show ?thesis by simp
qed

text \<open>
  C5 as stated fails: when the trailing mapping already defines \<open>@vocab\<close>, no mapping is
  appended and the supplied vocab is not recorded.
\<close>

theorem vocab_not_recorded:
  "Document_init [(''@context'', JList [JObj [(''@vocab'', JStr ''http://a/'')]])]
     None None (Some ''http://b/'') =
   Inr \<lparr>remote_keys = [],
        document = [(''@context'', JList [JObj [(''@vocab'', JStr ''http://a/'')]])]\<rparr> \<and>
   context_of
     \<lparr>remote_keys = [],
      document = [(''@context'', JList [JObj [(''@vocab'', JStr ''http://a/'')]])]\<rparr> =
     Some (JList [JObj [(''@vocab'', JStr ''http://a/'')]])"
  by (simp add: Document_init_def remote_context_keys_def
      deduplicate_context_def aggregate_remote_def clean_item_def visit_key_def has_key_def
      dict_update_def with_vocab_def add_vocab_def try_vocab_def context_of_def)


text \<open>
  C6. When a uri and a vocab are both supplied and no mapping entry of the local context
  defines \<open>@base\<close> or \<open>@vocab\<close>, construction returns (provided the cached remote contexts
  could be merged) and the \<open>@context\<close> of the document ends in one mapping that holds both
  \<open>@base\<close>, equal to the uri followed by \<open>#\<close>, and \<open>@vocab\<close>, equal to the vocab; no
  element before it is a mapping with \<open>@base\<close> or \<open>@vocab\<close>.
\<close>

theorem base_and_vocab_in_one_marker:
  assumes "uri \<noteq> []" and "vocab \<noteq> []"
    and "map_of content ''@context'' = Some (JList xs)"
    and "\<forall>x \<in> set xs. \<forall>d. x = JObj d \<longrightarrow> \<not> has_key ''@base'' d \<and> \<not> has_key ''@vocab'' d"
    and "aggregate_remote (remote_context_keys (JList xs)) context = Inr remote"
  shows "\<exists>self ys d. Document_init content (Some uri) context (Some vocab) = Inr self \<and>
           context_of self = Some (JList (ys @ [JObj d])) \<and>
           map_of d ''@base'' = Some (JStr (uri @ ''#'')) \<and>
           map_of d ''@vocab'' = Some (JStr vocab) \<and>
           (\<forall>y \<in> set ys. \<forall>d'. y = JObj d' \<longrightarrow> \<not> has_key ''@base'' d' \<and> \<not> has_key ''@vocab'' d')"
proof -
  let ?cs = "filter truthy (map (clean_item remote) xs)"
  have nm: "\<forall>x \<in> set ?cs. \<forall>d. x = JObj d \<longrightarrow> \<not> has_key ''@base'' d \<and> \<not> has_key ''@vocab'' d"
    using assms(4) by (rule no_marker_clean)
  from add_base_fresh [OF nm, of "uri @ ''#''"] obtain ys d1 where
    base: "add_base (JList ?cs) (uri @ ''#'') = Inr (JList (ys @ [JObj d1]))"
    and ys: "set ys \<subseteq> set ?cs"
    and d1: "map_of d1 ''@base'' = Some (JStr (uri @ ''#''))" "\<not> has_key ''@vocab'' d1"
    by blast
  let ?d = "AList.update ''@vocab'' (JStr vocab) d1"
  have vocab: "add_vocab (JList (ys @ [JObj d1])) vocab = Inr (JList (ys @ [JObj ?d]))"
    using d1(2) by (rule add_vocab_obj_new)
  have doc1: "when_given (Some uri) with_uri [(''@context'', JList ?cs)] =
              Inr [(''@context'', JList (ys @ [JObj d1])), (''id'', JStr uri)]"
    using assms(1) base by (simp add: with_uri_start)
  have doc2: "when_given (Some vocab) with_vocab
                [(''@context'', JList (ys @ [JObj d1])), (''id'', JStr uri)] =
              Inr [(''@context'', JList (ys @ [JObj ?d])), (''id'', JStr uri)]"
    using assms(2) vocab by (simp add: with_vocab_def)
  have "Document_init content (Some uri) context (Some vocab) =
          Inr \<lparr>remote_keys = remote_context_keys (JList xs),
               document = dict_update [(''@context'', JList (ys @ [JObj ?d])), (''id'', JStr uri)]
                            (AList.delete ''@context'' content)\<rparr>"
    unfolding Document_init_list [OF assms(3,5)] doc1 sum.case doc2 by simp
  moreover have "map_of ?d ''@base'' = Some (JStr (uri @ ''#''))"
    using d1(1) by (simp add: update_conv')
  moreover have "map_of ?d ''@vocab'' = Some (JStr vocab)" by (simp add: update_conv')
  moreover have "\<forall>y \<in> set ys. \<forall>d'. y = JObj d' \<longrightarrow>
                   \<not> has_key ''@base'' d' \<and> \<not> has_key ''@vocab'' d'"
    using nm ys by blast
  ultimately show ?thesis
    by (simp add: context_of_def context_after_update)
qed


theorem base_and_vocab_in_one_marker_witness:
  "\<exists>self ys d.
     Document_init
       [(''@context'', JList [JStr articular_json, JObj [(''Book'', JStr ''https://schema.org/Book'')]]),
        (''type'', JStr ''Book'')]
       (Some ''docs/alpha'') None (Some ''https://schema.org/'') = Inr self \<and>
     context_of self = Some (JList (ys @ [JObj d])) \<and>
     map_of d ''@base'' = Some (JStr (''docs/alpha'' @ ''#'')) \<and>
     map_of d ''@vocab'' = Some (JStr ''https://schema.org/'') \<and>
     (\<forall>y \<in> set ys. \<forall>d'. y = JObj d' \<longrightarrow> \<not> has_key ''@base'' d' \<and> \<not> has_key ''@vocab'' d')"
proof -
  let ?xs = "[JStr articular_json, JObj [(''Book'', JStr ''https://schema.org/Book'')]]"
  let ?content = "[(''@context'', JList ?xs), (''type'', JStr ''Book'')]"
  have h1: "''docs/alpha'' \<noteq> []" by simp
  have h2: "''https://schema.org/'' \<noteq> []" by simp
  have h3: "map_of ?content ''@context'' = Some (JList ?xs)" by simp
  have h4: "\<forall>x \<in> set ?xs. \<forall>d. x = JObj d \<longrightarrow> \<not> has_key ''@base'' d \<and> \<not> has_key ''@vocab'' d"
    by (simp add: has_key_def)
  have h5: "aggregate_remote (remote_context_keys (JList ?xs)) None = Inr []"
    by (simp add: aggregate_remote_def)
  show ?thesis
    by (rule base_and_vocab_in_one_marker [OF h1 h2 h3 h4 h5])
qed

text \<open>
  C3, as the code has it. In the scenario (any value of \<open>birthPlace\<close>, any uri, any
  vocab) the string entry \<open>https://example.org/ctx\<close> stays in the document's \<open>@context\<close>,
  as its first element, and no mapping entry of the \<open>@context\<close> has the key
  \<open>birthPlace\<close>.
\<close>

theorem scenario_string_entry_kept:
  "\<exists>self rest.
     Document_init
       [(''@context'', JList [JStr ''https://example.org/ctx'']), (''birthPlace'', bp)]
       uri
       (Some [(''https://example.org/ctx'',
               JObj [(''@context'',
                      JObj [(''birthPlace'', JObj [(''@id'', JStr ''https://schema.org/birthPlace'')])])])])
       vocab = Inr self \<and>
     context_of self = Some (JList (JStr ''https://example.org/ctx'' # rest)) \<and>
     (\<forall>d. JObj d \<in> set rest \<longrightarrow> \<not> has_key ''birthPlace'' d)"
proof -
  let ?u = "''https://example.org/ctx''"
  let ?content = "[(''@context'', JList [JStr ?u]), (''birthPlace'', bp)]"
  let ?cache = "Some [(?u, JObj [(''@context'',
                   JObj [(''birthPlace'', JObj [(''@id'', JStr ''https://schema.org/birthPlace'')])])])]"
  let ?remote = "[(''birthPlace'', JObj [(''@id'', JStr ''https://schema.org/birthPlace'')])]"
  have h1: "map_of ?content ''@context'' = Some (JList [JStr ?u])" by simp
  have h2: "aggregate_remote (remote_context_keys (JList [JStr ?u])) ?cache = Inr ?remote"
    by (simp add: remote_context_keys_def aggregate_remote_def dict_update_def)
  have cs: "filter truthy (map (clean_item ?remote) [JStr ?u]) = [JStr ?u]"
    by (simp add: clean_item_def)
  have nv: "py_contains (JStr ?u) ''@vocab'' \<noteq> Inr True"
    by (simp add: sublist_code prefix_code)
  have base: "add_base (JList [JStr ?u]) b = Inr (JList [JStr ?u, JObj [(''@base'', JStr b)]])" for b
    using add_base_other [of "JStr ?u" "[]" b] by simp
  have vocab0: "add_vocab (JList [JStr ?u]) v = Inr (JList [JStr ?u, JObj [(''@vocab'', JStr v)]])" for v
    using add_vocab_other [OF _ nv, of "[]" v] by simp
  have vocab1: "add_vocab (JList [JStr ?u, JObj [(''@base'', JStr b)]]) v =
      Inr (JList [JStr ?u, JObj [(''@base'', JStr b), (''@vocab'', JStr v)]])" for b v
    using add_vocab_obj_new [of "[(''@base'', JStr b)]" "[JStr ?u]" v] by (simp add: has_key_def)
  consider (none) "uri = None \<or> uri = Some []" | (some) u where "uri = Some u" "u \<noteq> []"
    by (cases uri) auto
  then show ?thesis
  proof cases
    case none
    consider (vnone) "vocab = None \<or> vocab = Some []" | (vsome) v where "vocab = Some v" "v \<noteq> []"
      by (cases vocab) auto
    then show ?thesis
    proof cases
      case vnone
      with none show ?thesis
        unfolding Document_init_list [OF h1 h2] cs
        by (auto simp: context_of_def dict_update_def)
    next
      case vsome
      with none show ?thesis
        unfolding Document_init_list [OF h1 h2] cs
        by (auto simp: context_of_def dict_update_def with_vocab_def vocab0 has_key_def)
    qed
  next
    case some
    consider (vnone) "vocab = None \<or> vocab = Some []" | (vsome) v where "vocab = Some v" "v \<noteq> []"
      by (cases vocab) auto
    then show ?thesis
    proof cases
      case vnone
      with some show ?thesis
        unfolding Document_init_list [OF h1 h2] cs
        by (auto simp: context_of_def dict_update_def with_uri_start base has_key_def)
    next
      case vsome
      with some show ?thesis
        unfolding Document_init_list [OF h1 h2] cs
        by (auto simp: context_of_def dict_update_def with_uri_start base
            with_vocab_def vocab1 has_key_def)
    qed
  qed
qed


theorem scenario_string_entry_kept_witness:
  "\<exists>self rest.
     Document_init
       [(''@context'', JList [JStr ''https://example.org/ctx'']),
        (''birthPlace'', JObj [(''_label'', JStr ''Leytonstone'')])]
       (Some ''alfred-hitchcock'')
       (Some [(''https://example.org/ctx'',
               JObj [(''@context'',
                      JObj [(''birthPlace'', JObj [(''@id'', JStr ''https://schema.org/birthPlace'')])])])])
       None = Inr self \<and>
     context_of self = Some (JList (JStr ''https://example.org/ctx'' # rest)) \<and>
     (\<forall>d. JObj d \<in> set rest \<longrightarrow> \<not> has_key ''birthPlace'' d)"
  by (rule scenario_string_entry_kept
      [of "JObj [(''_label'', JStr ''Leytonstone'')]" "Some ''alfred-hitchcock''" None])

text \<open>
  C3 as stated fails: without uri and vocab the document's \<open>@context\<close> in the scenario is
  the list that holds the string entry \<open>https://example.org/ctx\<close>; the entry is not
  dropped.
\<close>

theorem scenario_string_entry_not_dropped:
  "Document_init
     [(''@context'', JList [JStr ''https://example.org/ctx'']),
      (''birthPlace'', JObj [(''_label'', JStr ''Leytonstone'')])]
     None
     (Some [(''https://example.org/ctx'',
             JObj [(''@context'',
                    JObj [(''birthPlace'', JObj [(''@id'', JStr ''https://schema.org/birthPlace'')])])])])
     None =
   Inr \<lparr>remote_keys = [''https://example.org/ctx''],
        document = [(''@context'', JList [JStr ''https://example.org/ctx'']),
                    (''birthPlace'', JObj [(''_label'', JStr ''Leytonstone'')])]\<rparr> \<and>
   context_of
     \<lparr>remote_keys = [''https://example.org/ctx''],
      document = [(''@context'', JList [JStr ''https://example.org/ctx'']),
                  (''birthPlace'', JObj [(''_label'', JStr ''Leytonstone'')])]\<rparr> =
     Some (JList [JStr ''https://example.org/ctx''])"
  by (simp add: Document_init_def remote_context_keys_def
      deduplicate_context_def aggregate_remote_def clean_item_def dict_update_def context_of_def)


section \<open>Framing changes the document\<close>

text \<open>
  C7, evaluated. When the \<open>@context\<close> of the document is a non-empty list and the ontology
  file has a \<open>@context\<close>, then after \<open>framed\<close>, whatever \<open>jsonld.frame\<close> does and also when
  it raises, the first element of the document's own \<open>@context\<close> is the body of the
  ontology's context and no longer what it was: line 168 writes the address back into the
  framed copy only.
\<close>

theorem framed_changes_document:
  assumes "map_of (document self) ''@context'' = Some (JList (x # xs))"
    and "getitem_str ctx ''@context'' = Inr body"
  shows "context_of (snd (framed jsonld_frame ctx self)) = Some (JList (body # xs))"
  using assms
  by (auto simp: framed_def Let_def context_of_def update_conv' split: sum.splits)



theorem framed_changes_document_witness:
  "Document_init [(''@context'', JList [JStr articular_json])] (Some ''x'') None None =
     Inr \<lparr>remote_keys = [articular_json],
          document = [(''@context'', JList [JStr articular_json, JObj [(''@base'', JStr ''x#'')]]),
                      (''id'', JStr ''x'')]\<rparr> \<and>
   context_of (snd (framed (\<lambda>doc frame. Inr doc)
       (JObj [(''@context'', JObj [(''_label'', JStr ''http://www.w3.org/2000/01/rdf-schema#label'')])])
       \<lparr>remote_keys = [articular_json],
        document = [(''@context'', JList [JStr articular_json, JObj [(''@base'', JStr ''x#'')]]),
                    (''id'', JStr ''x'')]\<rparr>)) =
     Some (JList [JObj [(''_label'', JStr ''http://www.w3.org/2000/01/rdf-schema#label'')],
                  JObj [(''@base'', JStr ''x#'')]])"
proof -
  let ?self = "\<lparr>remote_keys = [articular_json],
          document = [(''@context'', JList [JStr articular_json, JObj [(''@base'', JStr ''x#'')]]),
                      (''id'', JStr ''x'')]\<rparr>"
  let ?body = "JObj [(''_label'', JStr ''http://www.w3.org/2000/01/rdf-schema#label'')]"
  have built: "Document_init [(''@context'', JList [JStr articular_json])] (Some ''x'') None None =
               Inr ?self"
    by (simp add: Document_init_def remote_context_keys_def List.map_filter_simps
        deduplicate_context_def aggregate_remote_def clean_item_def articular_json_def
        with_uri_def add_base_def set_in_last_def dict_update_def)
  have h1: "map_of (document ?self) ''@context'' =
            Some (JList (JStr articular_json # [JObj [(''@base'', JStr ''x#'')]]))"
    by simp
  have h2: "getitem_str (JObj [(''@context'', ?body)]) ''@context'' = Inr ?body" by simp
  from built framed_changes_document [OF h1 h2, of "\<lambda>doc frame. Inr doc"]
  show ?thesis by simp
qed

end
